theory Spec2Isabelle
  imports Main "HOL-Library.Sublist"
begin

section \<open>Strings\<close>

text \<open>
  Strings are lists of 8-bit characters; the model covers ASCII text, which is what
  GitHub logins and the seed list are made of. \<open>toLowerCase\<close> maps \<open>A\<close>..\<open>Z\<close> to
  \<open>a\<close>..\<open>z\<close> and leaves every other character alone; \<open>trim\<close> strips the ASCII white
  space and line terminators (tab, LF, VT, FF, CR, space) from both ends.
\<close>

definition toLowerCase_char :: "char \<Rightarrow> char" where
  "toLowerCase_char c =
     (case map_of (zip ''ABCDEFGHIJKLMNOPQRSTUVWXYZ'' ''abcdefghijklmnopqrstuvwxyz'') c of
        Some l \<Rightarrow> l
      | None \<Rightarrow> c)"

definition toLowerCase :: "string \<Rightarrow> string" where
  "toLowerCase s = map toLowerCase_char s"

definition is_space :: "char \<Rightarrow> bool" where
  "is_space c = (c \<in> set [CHR 0x09, CHR 0x0A, CHR 0x0B, CHR 0x0C, CHR 0x0D, CHR '' ''])"

definition trim :: "string \<Rightarrow> string" where
  "trim s = rev (dropWhile is_space (rev (dropWhile is_space s)))"

text \<open>\<open>s.split(',')\<close>: always at least one piece; the empty string gives one empty piece.\<close>

fun split_comma :: "string \<Rightarrow> string list" where
  "split_comma [] = [[]]"
| "split_comma (c # cs) =
     (if c = CHR '','' then [] # split_comma cs
      else (case split_comma cs of
              p # ps \<Rightarrow> (c # p) # ps
            | [] \<Rightarrow> [[c]]))"

text \<open>The inverse of splitting, used to say what the pieces of \<open>split_comma\<close> are.\<close>

fun join_comma :: "string list \<Rightarrow> string" where
  "join_comma [] = []"
| "join_comma [p] = p"
| "join_comma (p # q # ps) = p @ CHR '','' # join_comma (q # ps)"

text \<open>\<open>iso.split('T')[0]\<close>: the text before the first \<open>T\<close>.\<close>

definition split_T_first :: "string \<Rightarrow> string" where
  "split_T_first s = takeWhile (\<lambda>c. c \<noteq> CHR ''T'') s"

section \<open>JavaScript values, dates and exceptions\<close>

datatype js_error = TypeError | RangeError

text \<open>
  What \<open>res.json()\<close> can produce. JSON numbers are IEEE doubles; the code never computes
  with them and only tests them for truthiness (being non-zero), so the number type is a
  parameter with a zero. A value of type \<open>'n json option\<close> is a JavaScript value that
  may also be \<open>undefined\<close> (\<open>None\<close>).
\<close>

datatype 'n json =
    JNull
  | JBool bool
  | JNum 'n
  | JStr string
  | JArr "'n json list"
  | JObj "(string \<times> 'n json) list"

fun truthy :: "('n::zero) json option \<Rightarrow> bool" where
  "truthy None = False"
| "truthy (Some JNull) = False"
| "truthy (Some (JBool b)) = b"
| "truthy (Some (JNum n)) = (n \<noteq> 0)"
| "truthy (Some (JStr s)) = (s \<noteq> [])"
| "truthy (Some (JArr xs)) = True"
| "truthy (Some (JObj kvs)) = True"

text \<open>
  Reading a property \<open>v.k\<close>, for the four names the code reads (\<open>errors\<close>, \<open>data\<close>,
  \<open>user\<close>, \<open>contributionsCollection\<close>): none of them is an array index, \<open>length\<close> or a
  member of a built-in prototype. On \<open>undefined\<close> and \<open>null\<close> the read throws a
  TypeError; on an object it gives the own property (the last one, where the JSON text
  repeats a key) or \<open>undefined\<close>; on every other value it gives \<open>undefined\<close>.
\<close>

fun get_prop :: "'n json option \<Rightarrow> string \<Rightarrow> js_error + 'n json option" where
  "get_prop None k = Inl TypeError"
| "get_prop (Some JNull) k = Inl TypeError"
| "get_prop (Some (JObj kvs)) k = Inr (map_of (rev kvs) k)"
| "get_prop (Some (JBool b)) k = Inr None"
| "get_prop (Some (JNum n)) k = Inr None"
| "get_prop (Some (JStr s)) k = Inr None"
| "get_prop (Some (JArr xs)) k = Inr None"

text \<open>
  A \<open>Date\<close> object is either invalid (its time value is NaN, as the date picker hands
  over while a date is typed in) or valid; a valid one is represented by the text
  \<open>toISOString\<close> returns for it, which is all the code reads. \<open>toISOString\<close> throws a
  RangeError on an invalid date.
\<close>

datatype jsdate = InvalidDate | ValidDate string

fun toISOString :: "jsdate \<Rightarrow> js_error + string" where
  "toISOString InvalidDate = Inl RangeError"
| "toISOString (ValidDate txt) = Inr txt"

section \<open>The remote call\<close>

text \<open>
  The POST to the GraphQL endpoint, reduced to what varies: the three values interpolated
  into the query and the optional Authorization header.
\<close>

record request =
  login :: string
  fromIso :: string
  toIso :: string
  authorization :: "string option"

text \<open>
  What the remote call does: \<open>fetch\<close> rejects, \<open>res.json()\<close> rejects (the body is not
  JSON), or the body parses to a value.
\<close>

datatype 'n reply = FetchRejected | JsonRejected | Parsed "'n json"

section \<open>The data model\<close>

text \<open>
  \<open>interface UserStats\<close>. \<open>stats\<close> holds whatever the response carried under
  \<open>contributionsCollection\<close>; a property that is absent or \<open>undefined\<close> is \<open>None\<close>.
\<close>

record 'n UserStats =
  username :: string
  stats :: "'n json option"
  error :: "string option"

text \<open>
  The component's state (the five \<open>useState\<close> cells), with the text field's
  \<open>username\<close> named \<open>usernameInput\<close>, and \<open>sent\<close>, the requests issued to the
  remote API so far, oldest first.
\<close>

record 'n app =
  fromDate :: "jsdate option"
  toDate :: "jsdate option"
  usernameInput :: string
  users :: "'n UserStats list"
  loading :: bool
  sent :: "request list"

section \<open>fetchUserStats\<close>

definition error_entry :: "string \<Rightarrow> string \<Rightarrow> 'n UserStats" where
  "error_entry name msg = \<lparr>username = name, stats = None, error = Some msg\<rparr>"

text \<open>Lines 60 to 67, inside the \<open>try\<close>: every TypeError ends in the \<open>catch\<close>.\<close>

definition read_response :: "string \<Rightarrow> ('n::zero) json \<Rightarrow> 'n UserStats" where
  "read_response name data =
     (case get_prop (Some data) ''errors'' of
        Inl e \<Rightarrow> error_entry name ''Network or API error.''
      | Inr errors \<Rightarrow>
          if truthy errors then error_entry name ''User not found or API error.''
          else (case get_prop (Some data) ''data'' of
              Inl e \<Rightarrow> error_entry name ''Network or API error.''
            | Inr d \<Rightarrow> (case get_prop d ''user'' of
                  Inl e \<Rightarrow> error_entry name ''Network or API error.''
                | Inr u \<Rightarrow>
                    if \<not> truthy u then error_entry name ''User not found or API error.''
                    else (case get_prop u ''contributionsCollection'' of
                        Inl e \<Rightarrow> error_entry name ''Network or API error.''
                      | Inr c \<Rightarrow> \<lparr>username = name, stats = c, error = None\<rparr>))))"

definition make_request :: "string option \<Rightarrow> string \<Rightarrow> string \<Rightarrow> string \<Rightarrow> request" where
  "make_request githubToken name f t =
     \<lparr>login = name,
      fromIso = split_T_first f @ ''T00:00:00Z'',
      toIso = split_T_first t @ ''T23:59:59Z'',
      authorization = (case githubToken of
                         None \<Rightarrow> None
                       | Some tok \<Rightarrow> if tok = [] then None else Some (''Bearer '' @ tok))\<rparr>"

text \<open>
  The result is the value of the promise (\<open>Inl\<close>: it rejects with that exception) and
  the requests the call issued. \<open>net\<close> is the behaviour of the remote call.
\<close>

definition fetchUserStats ::
  "string option \<Rightarrow> (request \<Rightarrow> ('n::zero) reply) \<Rightarrow> string \<Rightarrow> jsdate option \<Rightarrow> jsdate option
     \<Rightarrow> (js_error + 'n UserStats) \<times> request list" where
  "fetchUserStats githubToken net name from to =
     (if name = [] then (Inr (error_entry name ''Missing date or username''), [])
      else (case from of
          None \<Rightarrow> (Inr (error_entry name ''Missing date or username''), [])
        | Some fd \<Rightarrow> (case to of
            None \<Rightarrow> (Inr (error_entry name ''Missing date or username''), [])
          | Some td \<Rightarrow> (case toISOString fd of
              Inl e \<Rightarrow> (Inl e, [])
            | Inr f \<Rightarrow> (case toISOString td of
                Inl e \<Rightarrow> (Inl e, [])
              | Inr t \<Rightarrow>
                  (let req = make_request githubToken name f t
                   in (Inr (case net req of
                              FetchRejected \<Rightarrow> error_entry name ''Network or API error.''
                            | JsonRejected \<Rightarrow> error_entry name ''Network or API error.''
                            | Parsed data \<Rightarrow> read_response name data),
                       [req])))))))"

section \<open>Adding and removing a user\<close>

text \<open>The updater passed to \<open>setUsers\<close> by \<open>handleAddUser\<close>.\<close>

definition addUser_update :: "string \<Rightarrow> 'n UserStats \<Rightarrow> 'n UserStats list \<Rightarrow> 'n UserStats list" where
  "addUser_update name newUserStats prev =
     (if list_ex (\<lambda>u. toLowerCase (username u) = toLowerCase name) prev then prev
      else prev @ [newUserStats])"

text \<open>
  The first component is the exception the handler's promise rejects with, if any; the
  handler then stops where it is, with \<open>loading\<close> still set.
\<close>

definition handleAddUser ::
  "string option \<Rightarrow> (request \<Rightarrow> ('n::zero) reply) \<Rightarrow> 'n app \<Rightarrow> js_error option \<times> 'n app" where
  "handleAddUser githubToken net w =
     (if usernameInput w = [] \<or> fromDate w = None \<or> toDate w = None then (None, w)
      else (case fetchUserStats githubToken net (usernameInput w) (fromDate w) (toDate w) of
          (Inl e, reqs) \<Rightarrow> (Some e, w\<lparr>loading := True, sent := sent w @ reqs\<rparr>)
        | (Inr newUserStats, reqs) \<Rightarrow>
            (None, w\<lparr>users := addUser_update (usernameInput w) newUserStats (users w),
                     loading := False,
                     usernameInput := [],
                     sent := sent w @ reqs\<rparr>)))"

definition handleRemoveUser :: "string \<Rightarrow> 'n app \<Rightarrow> 'n app" where
  "handleRemoveUser name w =
     (if name = [] then w
      else w\<lparr>users := filter (\<lambda>u. toLowerCase (username u) \<noteq> toLowerCase name) (users w)\<rparr>)"

section \<open>Seeding from the environment\<close>

text \<open>The updater passed to \<open>setUsers\<close> by the first effect.\<close>

definition seed_update :: "string list \<Rightarrow> 'n UserStats list \<Rightarrow> 'n UserStats list" where
  "seed_update envUsers prev =
     (let existing = map (\<lambda>u. toLowerCase (username u)) prev;
          newUsers = map (\<lambda>name. \<lparr>username = name, stats = None, error = None\<rparr>)
                       (filter (\<lambda>u. \<not> List.member existing (toLowerCase u)) envUsers)
      in prev @ newUsers)"

text \<open>\<open>env\<close> is \<open>VITE_GITHUB_USERS\<close>, \<open>None\<close> when it is not defined.\<close>

definition seedUsers :: "string option \<Rightarrow> 'n app \<Rightarrow> 'n app" where
  "seedUsers env w =
     (let envUsers = filter (\<lambda>u. u \<noteq> [])
                       (map trim (split_comma (case env of None \<Rightarrow> [] | Some s \<Rightarrow> s)))
      in if length envUsers > 0 then w\<lparr>users := seed_update envUsers (users w)\<rparr> else w)"

section \<open>Refreshing every user\<close>

text \<open>
  \<open>Promise.all\<close> over promises that settle to \<open>ps\<close>, in the order \<open>order\<close> (indices
  into \<open>ps\<close>). Each fulfilment is stored in the slot of its own promise; the result
  resolves when every slot is filled and rejects at the first rejection. A promise
  settles once: an index out of range or seen before changes nothing. When the order ends
  before every promise has settled, the result is still pending.
\<close>

datatype 'a settled = Pending | Rejected js_error | Resolved 'a

fun promise_all_steps :: "(js_error + 'a) list \<Rightarrow> nat list \<Rightarrow> 'a option list \<Rightarrow> 'a list settled" where
  "promise_all_steps ps [] vals = Pending"
| "promise_all_steps ps (i # order) vals =
     (if length ps \<le> i \<or> vals ! i \<noteq> None then promise_all_steps ps order vals
      else (case ps ! i of
          Inl e \<Rightarrow> Rejected e
        | Inr v \<Rightarrow>
            (let vals' = vals[i := Some v]
             in if list_all (\<lambda>x. x \<noteq> None) vals' then Resolved (map the vals')
                else promise_all_steps ps order vals')))"

definition promise_all :: "(js_error + 'a) list \<Rightarrow> nat list \<Rightarrow> 'a list settled" where
  "promise_all ps order =
     (if ps = [] then Resolved []
      else promise_all_steps ps order (replicate (length ps) None))"

text \<open>
  The second effect. \<open>nets i\<close> is the behaviour of the remote call for the entry at
  position \<open>i\<close>; \<open>order\<close> is the order in which the fetches complete. The requests are
  issued in list order, before any of them completes.
\<close>

definition refreshAll ::
  "string option \<Rightarrow> (nat \<Rightarrow> request \<Rightarrow> ('n::zero) reply) \<Rightarrow> nat list \<Rightarrow> 'n app \<Rightarrow> js_error option \<times> 'n app" where
  "refreshAll githubToken nets order w =
     (if fromDate w = None \<or> toDate w = None \<or> length (users w) = 0 then (None, w)
      else
        (let calls = map (\<lambda>(i, u). fetchUserStats githubToken (nets i) (username u) (fromDate w) (toDate w))
                       (enumerate 0 (users w));
             w1 = w\<lparr>loading := True, sent := sent w @ concat (map snd calls)\<rparr>
         in (case promise_all (map fst calls) order of
               Resolved updatedUsers \<Rightarrow> (None, w1\<lparr>users := updatedUsers, loading := False\<rparr>)
             | Rejected e \<Rightarrow> (Some e, w1\<lparr>loading := False\<rparr>)
             | Pending \<Rightarrow> (None, w1))))"

section \<open>Predicates and example inputs used by the statements\<close>

text \<open>\<open>has_field d k\<close>: the JSON value \<open>d\<close> is an object with a member named \<open>k\<close>.\<close>

fun has_field :: "'n json \<Rightarrow> string \<Rightarrow> bool" where
  "has_field (JObj kvs) k = (k \<in> set (map fst kvs))"
| "has_field JNull k = False"
| "has_field (JBool b) k = False"
| "has_field (JNum n) k = False"
| "has_field (JStr s) k = False"
| "has_field (JArr xs) k = False"

text \<open>
  The responses on which line 65 stores \<open>undefined\<close>: no truthy \<open>errors\<close>, a truthy
  \<open>data.user\<close>, and nothing under its \<open>contributionsCollection\<close>.
\<close>

definition user_lacks_collection :: "('n::zero) json \<Rightarrow> bool" where
  "user_lacks_collection data =
     (case get_prop (Some data) ''errors'' of
        Inl e \<Rightarrow> False
      | Inr errors \<Rightarrow> \<not> truthy errors \<and>
          (case get_prop (Some data) ''data'' of
             Inl e \<Rightarrow> False
           | Inr d \<Rightarrow> (case get_prop d ''user'' of
                 Inl e \<Rightarrow> False
               | Inr u \<Rightarrow> truthy u \<and> get_prop u ''contributionsCollection'' = Inr None)))"

text \<open>The uniqueness invariant of the list: no two usernames equal after lowercasing.\<close>

definition unique_users :: "'n UserStats list \<Rightarrow> bool" where
  "unique_users us = distinct (map (\<lambda>u. toLowerCase (username u)) us)"

text \<open>\<open>is_present name us\<close>: some entry of \<open>us\<close> has that username, compared in lowercase.\<close>

definition is_present :: "string \<Rightarrow> 'n UserStats list \<Rightarrow> bool" where
  "is_present name us = list_ex (\<lambda>u. toLowerCase (username u) = toLowerCase name) us"

text \<open>The state the component starts in (the initial values of the \<open>useState\<close> cells).\<close>

definition initial_app :: "'n app" where
  "initial_app =
     \<lparr>fromDate = None, toDate = None, usernameInput = [], users = [], loading = False, sent = []\<rparr>"

definition jan_first :: jsdate where
  "jan_first = ValidDate ''2024-01-01T00:00:00.000Z''"

definition jan_last :: jsdate where
  "jan_last = ValidDate ''2024-01-31T00:00:00.000Z''"

definition unfetched :: "string \<Rightarrow> int UserStats" where
  "unfetched name = \<lparr>username = name, stats = None, error = None\<rparr>"

text \<open>Typing \<open>carol\<close> into the text field before any date is chosen.\<close>

definition carol_no_dates :: "int app" where
  "carol_no_dates = initial_app\<lparr>usernameInput := ''carol''\<rparr>"

text \<open>The list holds \<open>alice\<close>, the range is January 2024, and \<open>Alice\<close> is typed in.\<close>

definition alice_again :: "int app" where
  "alice_again =
     initial_app\<lparr>fromDate := Some jan_first, toDate := Some jan_last,
                  usernameInput := ''Alice'', users := [unfetched ''alice'']\<rparr>"

text \<open>The list holds \<open>alice\<close> and \<open>bob\<close>, unfetched, and the range is January 2024.\<close>

definition alice_bob :: "int app" where
  "alice_bob =
     initial_app\<lparr>fromDate := Some jan_first, toDate := Some jan_last,
                  users := [unfetched ''alice'', unfetched ''bob'']\<rparr>"

text \<open>Remote behaviours: the connection fails; the body parses to a given value.\<close>

definition net_down :: "request \<Rightarrow> int reply" where
  "net_down req = FetchRejected"

definition net_reply :: "int json \<Rightarrow> request \<Rightarrow> int reply" where
  "net_reply d req = Parsed d"

definition five_commits :: "int json" where
  "five_commits =
     JObj [(''totalCommitContributions'', JNum 5),
           (''totalIssueContributions'', JNum 0),
           (''totalPullRequestContributions'', JNum 0),
           (''totalPullRequestReviewContributions'', JNum 0),
           (''totalRepositoryContributions'', JNum 0)]"

text \<open>The remote knows \<open>alice\<close> and answers a null user for everybody else.\<close>

definition nets_alice_only :: "nat \<Rightarrow> request \<Rightarrow> int reply" where
  "nets_alice_only i req =
     (if login req = ''alice''
      then Parsed (JObj [(''data'', JObj [(''user'', JObj [(''contributionsCollection'', five_commits)])])])
      else Parsed (JObj [(''data'', JObj [(''user'', JNull)])]))"

text \<open>A body with a user object that has no \<open>contributionsCollection\<close>.\<close>

definition bare_user :: "int json" where
  "bare_user = JObj [(''data'', JObj [(''user'', JObj [])])]"

text \<open>A body with neither \<open>errors\<close> nor \<open>data\<close>, as a failing gateway answers.\<close>

definition message_only :: "int json" where
  "message_only = JObj [(''message'', JStr ''Bad credentials'')]"

section \<open>Supporting lemmas\<close>

lemma promise_all_steps_fulfilled:
  assumes "length vals = length vs"
    and "distinct order"
    and "set order = {i. i < length vs \<and> vals ! i = None}"
    and "\<forall>i<length vs. vals ! i = None \<or> vals ! i = Some (vs ! i)"
    and "order \<noteq> []"
  shows "promise_all_steps (map Inr vs) order vals = Resolved vs"
  using assms
proof (induction order arbitrary: vals)
  case Nil
  then show ?case by simp
next
  case (Cons i order)
  from Cons.prems(3) have i: "i < length vs" "vals ! i = None" by auto
  let ?vals' = "vals[i := Some (vs ! i)]"
  have len': "length ?vals' = length vs" using Cons.prems(1) by simp
  have inv': "\<forall>j<length vs. ?vals' ! j = None \<or> ?vals' ! j = Some (vs ! j)"
  proof (intro allI impI)
    fix j assume j: "j < length vs"
    show "?vals' ! j = None \<or> ?vals' ! j = Some (vs ! j)"
    proof (cases "j = i")
      case True
      then show ?thesis using i Cons.prems(1) by simp
    next
      case False
      then show ?thesis using j Cons.prems(4) by simp
    qed
  qed
  show ?case
  proof (cases "list_all (\<lambda>x. x \<noteq> None) ?vals'")
    case True
    have "map the ?vals' = vs"
    proof (rule nth_equalityI)
      show "length (map the ?vals') = length vs" using len' by simp
    next
      fix j assume "j < length (map the ?vals')"
      then have j: "j < length vs" using len' by simp
      then have "?vals' ! j \<noteq> None" using True len' by (simp add: list_all_length)
      with inv'[rule_format, OF j] have "?vals' ! j = Some (vs ! j)" by simp
      then show "map the ?vals' ! j = vs ! j" using j len' by simp
    qed
    with True i show ?thesis by (simp add: Let_def)
  next
    case False
    then obtain j where j: "j < length vs" "?vals' ! j = None"
      using len' by (auto simp: list_all_length)
    have set': "set order = {j. j < length vs \<and> ?vals' ! j = None}"
    proof (rule set_eqI)
      fix k
      have mem: "k \<in> set (i # order) \<longleftrightarrow> k < length vs \<and> vals ! k = None"
        using Cons.prems(3) by blast
      show "k \<in> set order \<longleftrightarrow> k \<in> {j. j < length vs \<and> ?vals' ! j = None}"
      proof (cases "k = i")
        case True
        then show ?thesis using Cons.prems(1,2) i by simp
      next
        case False
        then show ?thesis using mem by simp
      qed
    qed
    have "j \<in> set order" unfolding set' using j by simp
    then have "order \<noteq> []" by (cases order) simp_all
    then have "promise_all_steps (map Inr vs) order ?vals' = Resolved vs"
      using Cons.IH[OF len' _ set' inv'] Cons.prems(2) by simp
    with False i show ?thesis by (simp add: Let_def)
  qed
qed

lemma promise_all_fulfilled:
  assumes "distinct order" and "set order = {0..<length vs}"
  shows "promise_all (map Inr vs) order = Resolved vs"
proof (cases "vs = []")
  case True
  then show ?thesis by (simp add: promise_all_def)
next
  case False
  then have ne: "order \<noteq> []" using assms(2) by (cases order) simp_all
  have len: "length (replicate (length vs) (None :: 'a option)) = length vs" by simp
  have st: "set order = {i. i < length vs \<and> replicate (length vs) None ! i = (None :: 'a option)}"
  proof (rule set_eqI)
    fix k show "k \<in> set order \<longleftrightarrow> k \<in> {i. i < length vs \<and> replicate (length vs) None ! i = (None :: 'a option)}"
      unfolding assms(2) by (simp cong: conj_cong)
  qed
  have inv: "\<forall>i<length vs. replicate (length vs) None ! i = None \<or> replicate (length vs) None ! i = Some (vs ! i)"
    by (simp cong: conj_cong)
  have "promise_all_steps (map Inr vs) order (replicate (length vs) None) = Resolved vs"
    by (rule promise_all_steps_fulfilled[OF len assms(1) st inv ne])
  with False show ?thesis by (simp add: promise_all_def)
qed


lemma username_error_entry: "username (error_entry name msg) = name"
  by (simp add: error_entry_def)

lemma username_read_response: "username (read_response name data) = name"
  by (simp add: read_response_def error_entry_def split: sum.splits)

lemma fetchUserStats_valid:
  assumes "name \<noteq> []"
  shows "fetchUserStats githubToken net name (Some (ValidDate f)) (Some (ValidDate t)) =
           (Inr (case net (make_request githubToken name f t) of
                   FetchRejected \<Rightarrow> error_entry name ''Network or API error.''
                 | JsonRejected \<Rightarrow> error_entry name ''Network or API error.''
                 | Parsed data \<Rightarrow> read_response name data),
            [make_request githubToken name f t])"
  using assms by (simp add: fetchUserStats_def Let_def)

lemma fetchUserStats_fulfils:
  assumes "from \<noteq> Some InvalidDate" and "to \<noteq> Some InvalidDate"
  shows "\<exists>r. fst (fetchUserStats githubToken net name from to) = Inr r \<and> username r = name"
proof (cases "name = [] \<or> from = None \<or> to = None")
  case True
  then show ?thesis
    by (auto simp: fetchUserStats_def error_entry_def split: option.splits)
next
  case False
  then obtain fd td where ft: "from = Some fd" "to = Some td" and name: "name \<noteq> []" by auto
  from ft assms obtain f t where "fd = ValidDate f" "td = ValidDate t"
    by (cases fd; cases td) auto
  with ft name show ?thesis
    by (simp add: fetchUserStats_valid username_error_entry username_read_response split: reply.splits)
qed

lemma read_response_not_both:
  "stats (read_response name data) = None \<or> error (read_response name data) = None"
  by (simp add: read_response_def error_entry_def split: sum.splits)

lemma read_response_neither:
  "(stats (read_response name data) = None \<and> error (read_response name data) = None)
     \<longleftrightarrow> user_lacks_collection data"
  by (auto simp: read_response_def user_lacks_collection_def error_entry_def split: sum.splits)

lemma addUser_update_present:
  assumes "\<exists>u\<in>set prev. toLowerCase (username u) = toLowerCase name"
  shows "addUser_update name newUserStats prev = prev"
  using assms by (simp add: addUser_update_def list_ex_iff)

lemma users_handleAddUser:
  "users (snd (handleAddUser githubToken net w)) = users w \<or>
   (\<exists>r. users (snd (handleAddUser githubToken net w)) = addUser_update (usernameInput w) r (users w))"
  by (auto simp: handleAddUser_def split: prod.splits sum.splits)

lemma split_comma_not_Nil: "split_comma s \<noteq> []"
  by (induction s) (auto split: list.splits)

lemma join_comma_Cons: "ps \<noteq> [] \<Longrightarrow> join_comma (p # ps) = p @ CHR '','' # join_comma ps"
  by (cases ps) simp_all

lemma join_split_comma: "join_comma (split_comma s) = s"
proof (induction s)
  case Nil
  then show ?case by simp
next
  case (Cons c cs)
  obtain p ps where sp: "split_comma cs = p # ps"
    using split_comma_not_Nil [of cs] by (cases "split_comma cs") auto
  show ?case
  proof (cases "c = CHR '',''")
    case True
    then show ?thesis using Cons.IH split_comma_not_Nil [of cs]
      by (simp add: join_comma_Cons)
  next
    case False
    then show ?thesis using Cons.IH sp
      by (cases ps) simp_all
  qed
qed

lemma split_comma_no_comma: "p \<in> set (split_comma s) \<Longrightarrow> CHR '','' \<notin> set p"
  by (induction s arbitrary: p) (auto split: if_splits list.splits)

lemma rev_dropWhile_rev_split:
  "rev (dropWhile P (rev r)) @ rev (takeWhile P (rev r)) = r"
proof -
  have "rev (takeWhile P (rev r) @ dropWhile P (rev r)) = rev (rev r)"
    by (simp only: takeWhile_dropWhile_id)
  then show ?thesis by (simp only: rev_append rev_rev_ident)
qed

lemma trim_split: "dropWhile is_space s = trim s @ rev (takeWhile is_space (rev (dropWhile is_space s)))"
  unfolding trim_def by (rule rev_dropWhile_rev_split [symmetric])

lemma trim_decompose:
  "\<exists>a b. s = a @ trim s @ b \<and> list_all is_space a \<and> list_all is_space b"
proof -
  let ?a = "takeWhile is_space s"
  let ?b = "rev (takeWhile is_space (rev (dropWhile is_space s)))"
  have "s = ?a @ dropWhile is_space s" by simp
  then have "s = ?a @ trim s @ ?b" using trim_split [of s] by simp
  moreover have "list_all is_space ?a"
    by (simp add: list_all_iff) (meson set_takeWhileD)
  moreover have "list_all is_space ?b"
    by (simp add: list_all_iff) (meson set_takeWhileD)
  ultimately show ?thesis by blast
qed

lemma trim_ends:
  assumes "trim s \<noteq> []"
  shows "\<not> is_space (hd (trim s)) \<and> \<not> is_space (last (trim s))"
proof -
  let ?r = "dropWhile is_space s"
  let ?q = "dropWhile is_space (rev ?r)"
  have q: "?q \<noteq> []" using assms unfolding trim_def by (simp only: rev_is_Nil_conv not_False_eq_True)
  then have "\<not> is_space (hd ?q)" by (rule hd_dropWhile)
  moreover have "last (trim s) = hd ?q" unfolding trim_def using q by (simp only: last_rev)
  moreover have "\<not> is_space (hd (trim s))"
  proof -
    have r: "?r \<noteq> []"
    proof
      assume "?r = []"
      then have "trim s = []" unfolding trim_def by (simp only: rev.simps dropWhile.simps)
      with assms show False by contradiction
    qed
    then have "\<not> is_space (hd ?r)" by (rule hd_dropWhile)
    moreover have "hd ?r = hd (trim s)"
      using trim_split [of s] assms by (metis hd_append2)
    ultimately show ?thesis by simp
  qed
  ultimately show ?thesis by simp
qed

lemma users_seedUsers:
  "users (seedUsers env w) =
     seed_update (filter (\<lambda>u. u \<noteq> []) (map trim (split_comma (case env of None \<Rightarrow> [] | Some s \<Rightarrow> s))))
       (users w)"
proof -
  have "seed_update [] (users w) = users w" by (simp add: seed_update_def)
  then show ?thesis by (simp add: seedUsers_def Let_def)
qed

lemma seedUsers_only_users: "seedUsers env w = w\<lparr>users := users (seedUsers env w)\<rparr>"
  by (simp add: seedUsers_def Let_def)

lemma refreshAll_fulfilled:
  assumes "fromDate w = Some (ValidDate f)" and "toDate w = Some (ValidDate t)"
    and "distinct order" and "set order = {0..<length (users w)}"
  shows "refreshAll githubToken nets order w =
           (None,
            w\<lparr>users := map (\<lambda>(i, u). projr (fst (fetchUserStats githubToken (nets i) (username u)
                                                   (fromDate w) (toDate w))))
                           (enumerate 0 (users w)),
              loading := (if users w = [] then loading w else False),
              sent := sent w @ concat (map (\<lambda>(i, u). snd (fetchUserStats githubToken (nets i) (username u)
                                                   (fromDate w) (toDate w)))
                                         (enumerate 0 (users w)))\<rparr>)"
proof (cases "users w = []")
  case True
  then show ?thesis by (simp add: refreshAll_def)
next
  case False
  let ?call = "\<lambda>(i, u). fetchUserStats githubToken (nets i) (username u) (fromDate w) (toDate w)"
  let ?calls = "map ?call (enumerate 0 (users w))"
  let ?rs = "map (\<lambda>(i, u). projr (fst (fetchUserStats githubToken (nets i) (username u)
                                       (fromDate w) (toDate w))))
               (enumerate 0 (users w))"
  have each: "fst (?call p) = Inr (projr (fst (?call p)))" for p
  proof -
    obtain i u where p: "p = (i, u)" by (cases p)
    obtain r where "fst (fetchUserStats githubToken (nets i) (username u) (fromDate w) (toDate w)) = Inr r"
      using fetchUserStats_fulfils [of "fromDate w" "toDate w" githubToken "nets i" "username u"] assms(1,2)
      by auto
    with p show ?thesis by simp
  qed
  have eq: "map fst ?calls = map Inr ?rs"
  proof (rule nth_equalityI)
    show "length (map fst ?calls) = length (map Inr ?rs)" by simp
  next
    fix k assume "k < length (map fst ?calls)"
    then have k: "k < length (users w)" by simp
    then show "map fst ?calls ! k = map Inr ?rs ! k"
      using each [of "(k, users w ! k)"] by (simp add: nth_enumerate_eq)
  qed
  have pr: "promise_all (map Inr ?rs) order = Resolved ?rs"
    using assms(3,4) by (intro promise_all_fulfilled) simp_all
  have pa: "promise_all (map fst ?calls) order = Resolved ?rs"
    unfolding eq by (rule pr)
  have snds: "map snd ?calls = map (\<lambda>(i, u). snd (fetchUserStats githubToken (nets i) (username u)
                                       (fromDate w) (toDate w))) (enumerate 0 (users w))"
    by (simp add: case_prod_unfold)
  show ?thesis
    unfolding refreshAll_def Let_def pa snds using False assms(1,2) by simp
qed

lemma fetchUserStats_username:
  assumes "fetchUserStats githubToken net name from to = (Inr r, reqs)"
  shows "username r = name"
proof (cases "from = Some InvalidDate \<or> to = Some InvalidDate")
  case False
  then show ?thesis
    using fetchUserStats_fulfils [of "from" "to" githubToken net name] assms by auto
next
  case True
  then show ?thesis using assms
    by (auto simp: fetchUserStats_def error_entry_def
        split: if_splits option.splits sum.splits jsdate.splits)
qed

lemma unique_users_addUser_update:
  assumes "unique_users prev" and "username newUserStats = name"
  shows "unique_users (addUser_update name newUserStats prev)"
  using assms by (auto simp: unique_users_def addUser_update_def list_ex_iff)

lemma unique_users_handleAddUser:
  assumes "unique_users (users w)"
  shows "unique_users (users (snd (handleAddUser githubToken net w)))"
proof (cases "usernameInput w = [] \<or> fromDate w = None \<or> toDate w = None")
  case True
  then show ?thesis using assms by (auto simp: handleAddUser_def)
next
  case False
  obtain res reqs where f:
    "fetchUserStats githubToken net (usernameInput w) (fromDate w) (toDate w) = (res, reqs)"
    by (cases "fetchUserStats githubToken net (usernameInput w) (fromDate w) (toDate w)")
  show ?thesis
  proof (cases res)
    case (Inl e)
    then show ?thesis using False f assms by (simp add: handleAddUser_def)
  next
    case (Inr r)
    then have "username r = usernameInput w" using f fetchUserStats_username by blast
    then show ?thesis using False f Inr assms
      by (simp add: handleAddUser_def unique_users_addUser_update)
  qed
qed

lemma unique_users_handleRemoveUser:
  assumes "unique_users (users w)"
  shows "unique_users (users (handleRemoveUser name w))"
  using assms by (simp add: handleRemoveUser_def unique_users_def distinct_map_filter)

lemma usernames_refreshAll:
  assumes "fromDate w = Some (ValidDate f)" and "toDate w = Some (ValidDate t)"
    and "distinct order" and "set order = {0..<length (users w)}"
  shows "map username (users (snd (refreshAll githubToken nets order w))) = map username (users w)"
proof -
  have un: "username (projr (fst (fetchUserStats githubToken (nets i) (username u) (fromDate w) (toDate w))))
          = username u" for i u
    using fetchUserStats_fulfils [of "fromDate w" "toDate w" githubToken "nets i" "username u"] assms(1,2)
    by auto
  have "map username (map (\<lambda>(i, u). projr (fst (fetchUserStats githubToken (nets i) (username u)
                 (fromDate w) (toDate w)))) (enumerate 0 (users w)))
             = map (username \<circ> snd) (enumerate 0 (users w))"
    by (simp add: case_prod_unfold un)
  also have "\<dots> = map username (users w)"
    by (simp add: map_snd_enumerate flip: map_map)
  finally show ?thesis by (simp add: refreshAll_fulfilled [OF assms])
qed

lemma unique_users_refreshAll:
  assumes "fromDate w = Some (ValidDate f)" and "toDate w = Some (ValidDate t)"
    and "distinct order" and "set order = {0..<length (users w)}"
    and "unique_users (users w)"
  shows "unique_users (users (snd (refreshAll githubToken nets order w)))"
proof -
  have "map (\<lambda>u. toLowerCase (username u)) us = map toLowerCase (map username us)"
    for us :: "'a UserStats list" by simp
  then show ?thesis
    using usernames_refreshAll [OF assms(1-4), of githubToken nets] assms(5)
    unfolding unique_users_def by metis
qed

lemma unique_users_seed_update:
  assumes "unique_users prev" and "distinct (map toLowerCase envUsers)"
  shows "unique_users (seed_update envUsers prev)"
proof -
  let ?new = "filter (\<lambda>u. toLowerCase u \<notin> set (map (\<lambda>u. toLowerCase (username u)) prev)) envUsers"
  have "distinct (map toLowerCase ?new)"
    using assms(2) by (rule distinct_map_filter)
  moreover have "set (map (\<lambda>u. toLowerCase (username u)) prev) \<inter> set (map toLowerCase ?new) = {}"
    by (auto simp: image_iff)
  ultimately show ?thesis
    using assms(1) by (simp add: unique_users_def seed_update_def Let_def comp_def)
qed

text \<open>
  What seeding computes: the string is split at its commas (the pieces contain no comma
  and joined by commas give the string back), each piece is trimmed (white space is
  dropped at both ends and only there), the empty pieces are discarded, and an entry
  with neither stats nor error is appended, in order, for each remaining name whose
  lowercase form is not a lowercased username of the list as it was before seeding.
  Nothing else in the state changes; in particular no request is sent.
\<close>

lemma seedUsers_appends:
  "users (seedUsers (Some s) w) =
     users w @
     map (\<lambda>name. \<lparr>username = name, stats = None, error = None\<rparr>)
       (filter (\<lambda>name. toLowerCase name \<notin> set (map (\<lambda>u. toLowerCase (username u)) (users w)))
          (filter (\<lambda>piece. piece \<noteq> []) (map trim (split_comma s)))) \<and>
   seedUsers (Some s) w = w\<lparr>users := users (seedUsers (Some s) w)\<rparr> \<and>
   sent (seedUsers (Some s) w) = sent w \<and>
   join_comma (split_comma s) = s \<and>
   (\<forall>piece\<in>set (split_comma s). CHR '','' \<notin> set piece) \<and>
   (\<forall>piece. (\<exists>a b. piece = a @ trim piece @ b \<and> list_all is_space a \<and> list_all is_space b) \<and>
      (trim piece \<noteq> [] \<longrightarrow> \<not> is_space (hd (trim piece)) \<and> \<not> is_space (last (trim piece))))"
proof -
  have "users (seedUsers (Some s) w) =
     users w @
     map (\<lambda>name. \<lparr>username = name, stats = None, error = None\<rparr>)
       (filter (\<lambda>name. toLowerCase name \<notin> set (map (\<lambda>u. toLowerCase (username u)) (users w)))
          (filter (\<lambda>piece. piece \<noteq> []) (map trim (split_comma s))))"
    by (simp add: users_seedUsers seed_update_def Let_def)
  moreover have "sent (seedUsers (Some s) w) = sent w"
    by (simp add: seedUsers_def Let_def)
  ultimately show ?thesis
    using seedUsers_only_users [of "Some s" w] join_split_comma [of s]
      split_comma_no_comma [of _ s] trim_decompose trim_ends
    by blast
qed

section \<open>Validation precedes the network\<close>

text \<open>
  C5: whenever the username is empty or one of the two dates is unset, fetchUserStats
  issues no request and returns the entry with the error "Missing date or username" and
  no stats.
\<close>

theorem fetchUserStats_missing:
  assumes "name = [] \<or> from = None \<or> to = None"
  shows "fetchUserStats githubToken net name from to =
           (Inr \<lparr>username = name, stats = None, error = Some ''Missing date or username''\<rparr>, [])"
  using assms by (auto simp: fetchUserStats_def error_entry_def split: option.splits)

theorem fetchUserStats_missing_witness:
  "(''carol'' = [] \<or> (None :: jsdate option) = None \<or> (None :: jsdate option) = None) \<and>
   fetchUserStats None net_down ''carol'' None None =
     (Inr \<lparr>username = ''carol'', stats = None, error = Some ''Missing date or username''\<rparr>, [])"
  using fetchUserStats_missing [of "''carol''" None None None net_down] by simp

section \<open>A response without errors and without data\<close>

text \<open>
  C10: when the body parses to a JSON value that has neither a top-level \<open>errors\<close>
  member nor a \<open>data\<close> member, reading \<open>data.data.user\<close> throws inside the
  \<open>try\<close> and fetchUserStats returns the entry with "Network or API error.", not
  "User not found or API error.".
\<close>

theorem fetchUserStats_no_errors_no_data:
  assumes "name \<noteq> []"
    and "from = Some (ValidDate f)" and "to = Some (ValidDate t)"
    and "net (make_request githubToken name f t) = Parsed data"
    and "\<not> has_field data ''errors''" and "\<not> has_field data ''data''"
  shows "fetchUserStats githubToken net name from to =
           (Inr \<lparr>username = name, stats = None, error = Some ''Network or API error.''\<rparr>,
            [make_request githubToken name f t])"
proof -
  have no_field: "get_prop (Some data) k = Inl TypeError \<or> get_prop (Some data) k = Inr None"
    if "\<not> has_field data k" for k
    using that by (cases data) (auto simp: map_of_eq_None_iff)
  have "read_response name data = error_entry name ''Network or API error.''"
    using no_field[OF assms(5)] no_field[OF assms(6)]
    by (auto simp: read_response_def)
  then show ?thesis
    using assms(1-4) by (simp add: fetchUserStats_valid error_entry_def)
qed

theorem fetchUserStats_no_errors_no_data_witness:
  "''carol'' \<noteq> [] \<and> \<not> has_field message_only ''errors'' \<and> \<not> has_field message_only ''data'' \<and>
   fetchUserStats None (net_reply message_only) ''carol'' (Some jan_first) (Some jan_last) =
     (Inr \<lparr>username = ''carol'', stats = None, error = Some ''Network or API error.''\<rparr>,
      [\<lparr>login = ''carol'', fromIso = ''2024-01-01T00:00:00Z'', toIso = ''2024-01-31T23:59:59Z'',
        authorization = None\<rparr>])"
  using fetchUserStats_no_errors_no_data
    [of "''carol''" "Some jan_first" "''2024-01-01T00:00:00.000Z''"
        "Some jan_last" "''2024-01-31T00:00:00.000Z''" "net_reply message_only" None message_only]
  by (simp add: jan_first_def jan_last_def net_reply_def message_only_def make_request_def
      split_T_first_def)

section \<open>What fetchUserStats returns\<close>

text \<open>
  C6 (as the code has it): for every username, every behaviour of the remote call and
  dates that are unset or valid, fetchUserStats does not throw and returns an entry for
  that username which never carries both stats and an error. It carries neither exactly
  when the request was sent and the body parsed to a value with no truthy \<open>errors\<close>
  and a truthy \<open>data.user\<close> that has no \<open>contributionsCollection\<close>; in every other
  case it carries exactly one of the two.

  The claim as stated fails twice: on a body such as \<open>{"data":{"user":{}}}\<close> the entry
  has neither stats nor error, and with an invalid Date \<open>toISOString\<close>, called before
  the \<open>try\<close>, throws a RangeError.
\<close>

theorem fetchUserStats_total:
  assumes "from \<noteq> Some InvalidDate" and "to \<noteq> Some InvalidDate"
  shows "\<exists>r reqs. fetchUserStats githubToken net name from to = (Inr r, reqs) \<and>
           username r = name \<and>
           \<not> (stats r \<noteq> None \<and> error r \<noteq> None) \<and>
           ((stats r = None \<and> error r = None) \<longleftrightarrow>
              (\<exists>f t data. name \<noteq> [] \<and> from = Some (ValidDate f) \<and> to = Some (ValidDate t) \<and>
                 net (make_request githubToken name f t) = Parsed data \<and>
                 user_lacks_collection data))"
proof (cases "name = [] \<or> from = None \<or> to = None")
  case True
  then have "fetchUserStats githubToken net name from to =
      (Inr (error_entry name ''Missing date or username''), [])"
    by (auto simp: fetchUserStats_def split: option.splits)
  with True show ?thesis by (auto simp: error_entry_def)
next
  case False
  then obtain fd td where ft: "from = Some fd" "to = Some td" and name: "name \<noteq> []" by auto
  from ft assms obtain f t where v: "fd = ValidDate f" "td = ValidDate t"
    by (cases fd; cases td) auto
  show ?thesis
  proof (cases "net (make_request githubToken name f t)")
    case FetchRejected
    then show ?thesis using ft v name
      by (simp add: fetchUserStats_valid error_entry_def)
  next
    case JsonRejected
    then show ?thesis using ft v name
      by (simp add: fetchUserStats_valid error_entry_def)
  next
    case (Parsed data)
    then show ?thesis
      using ft v name read_response_not_both [of name data] read_response_neither [of name data]
      by (auto simp: fetchUserStats_valid username_read_response)
  qed
qed

theorem fetchUserStats_total_witness:
  "Some jan_first \<noteq> Some InvalidDate \<and> Some jan_last \<noteq> Some InvalidDate \<and>
   (\<exists>r reqs. fetchUserStats None (nets_alice_only 0) ''alice'' (Some jan_first) (Some jan_last) = (Inr r, reqs) \<and>
      username r = ''alice'' \<and> \<not> (stats r \<noteq> None \<and> error r \<noteq> None))"
  using fetchUserStats_total [of "Some jan_first" "Some jan_last" None "nets_alice_only 0" "''alice''"]
  by (auto simp: jan_first_def jan_last_def)

theorem fetchUserStats_counterexample:
  "fetchUserStats None (net_reply bare_user) ''carol'' (Some jan_first) (Some jan_last) =
     (Inr \<lparr>username = ''carol'', stats = None, error = None\<rparr>,
      [\<lparr>login = ''carol'', fromIso = ''2024-01-01T00:00:00Z'', toIso = ''2024-01-31T23:59:59Z'',
        authorization = None\<rparr>]) \<and>
   fetchUserStats None net_down ''carol'' (Some InvalidDate) (Some jan_last) = (Inl RangeError, [])"
  by (simp add: fetchUserStats_def jan_first_def jan_last_def net_reply_def bare_user_def
      make_request_def split_T_first_def read_response_def net_down_def)

section \<open>Adding a user\<close>

text \<open>
  C1 (as the code has it): in every state in which a date of the range is unset (in
  particular when neither is set), handleAddUser returns at its guard: the state, and so
  the list and its length, is unchanged, no entry is added and no request is sent.

  The claim as stated, that an entry with "Missing date or username" is appended, fails:
  with \<open>carol\<close> typed in and no dates the list stays empty.
\<close>

theorem handleAddUser_unset_date:
  assumes "fromDate w = None \<or> toDate w = None"
  shows "handleAddUser githubToken net w = (None, w)"
  using assms by (auto simp: handleAddUser_def)

theorem handleAddUser_unset_date_witness:
  "(fromDate carol_no_dates = None \<or> toDate carol_no_dates = None) \<and>
   handleAddUser None net_down carol_no_dates = (None, carol_no_dates)"
  using handleAddUser_unset_date [of carol_no_dates None net_down]
  by (simp add: carol_no_dates_def initial_app_def)

theorem handleAddUser_counterexample:
  "users (snd (handleAddUser None net_down carol_no_dates)) = [] \<and>
   length (users (snd (handleAddUser None net_down carol_no_dates))) \<noteq>
     length (users carol_no_dates) + 1"
  by (simp add: handleAddUser_def carol_no_dates_def initial_app_def)

text \<open>
  C7: when the username typed in is already in the list (compared after lowercasing),
  handleAddUser leaves the list as it is: same entries, same length, same order. The
  updater alone does so too, for every fetch result it is given.
\<close>

theorem handleAddUser_present_unchanged:
  assumes "\<exists>u\<in>set (users w). toLowerCase (username u) = toLowerCase (usernameInput w)"
  shows "users (snd (handleAddUser githubToken net w)) = users w \<and>
         (\<forall>newUserStats. addUser_update (usernameInput w) newUserStats (users w) = users w)"
  using users_handleAddUser [of githubToken net w] addUser_update_present [OF assms]
  by auto

theorem handleAddUser_present_unchanged_witness:
  "(\<exists>u\<in>set (users alice_again). toLowerCase (username u) = toLowerCase (usernameInput alice_again)) \<and>
   users (snd (handleAddUser None (net_reply bare_user) alice_again)) = [unfetched ''alice'']"
  using handleAddUser_present_unchanged [of alice_again None "net_reply bare_user"]
  by (simp add: alice_again_def initial_app_def unfetched_def toLowerCase_def toLowerCase_char_def)

text \<open>
  C3 (as the code has it): when the non-empty username typed in is already in the list
  (compared after lowercasing) and both dates are set and valid, handleAddUser still
  calls fetchUserStats first, which sends exactly one request; the presence check runs
  afterwards in the updater, the fetch result is dropped and the list is left unchanged.

  The claim as stated, that the fetch is not performed for a username already present,
  fails: adding \<open>Alice\<close> to a list holding \<open>alice\<close> sends a request.
\<close>

theorem handleAddUser_present_fetches:
  assumes "\<exists>u\<in>set (users w). toLowerCase (username u) = toLowerCase (usernameInput w)"
    and "usernameInput w \<noteq> []"
    and "fromDate w = Some (ValidDate f)" and "toDate w = Some (ValidDate t)"
  shows "fst (handleAddUser githubToken net w) = None \<and>
         users (snd (handleAddUser githubToken net w)) = users w \<and>
         sent (snd (handleAddUser githubToken net w)) =
           sent w @ [make_request githubToken (usernameInput w) f t]"
  using assms(2-4) addUser_update_present [OF assms(1)]
  by (simp add: handleAddUser_def fetchUserStats_valid)

theorem handleAddUser_present_fetches_witness:
  "(\<exists>u\<in>set (users alice_again). toLowerCase (username u) = toLowerCase (usernameInput alice_again)) \<and>
   usernameInput alice_again \<noteq> [] \<and>
   users (snd (handleAddUser None net_down alice_again)) = users alice_again \<and>
   length (sent (snd (handleAddUser None net_down alice_again))) = length (sent alice_again) + 1"
  using handleAddUser_present_fetches
    [of alice_again "''2024-01-01T00:00:00.000Z''" "''2024-01-31T00:00:00.000Z''" None net_down]
  by (simp add: alice_again_def initial_app_def unfetched_def toLowerCase_def toLowerCase_char_def
      jan_first_def jan_last_def)

theorem handleAddUser_present_counterexample:
  "is_present (usernameInput alice_again) (users alice_again) \<and>
   sent alice_again = [] \<and>
   sent (snd (handleAddUser None net_down alice_again)) =
     [\<lparr>login = ''Alice'', fromIso = ''2024-01-01T00:00:00Z'', toIso = ''2024-01-31T23:59:59Z'',
       authorization = None\<rparr>]"
  by (simp add: handleAddUser_def fetchUserStats_def alice_again_def initial_app_def unfetched_def
      toLowerCase_def toLowerCase_char_def jan_first_def jan_last_def make_request_def
      split_T_first_def net_down_def is_present_def)

section \<open>Removing a user\<close>

text \<open>
  C8: handleRemoveUser with an empty username changes nothing. With a non-empty username
  the new list is the old one without the entries whose username equals it after
  lowercasing: no such entry is left, the other entries are all kept, unchanged and in
  their original relative order, and nothing else in the state changes.
\<close>

theorem handleRemoveUser_spec:
  "(name = [] \<longrightarrow> handleRemoveUser name w = w) \<and>
   (name \<noteq> [] \<longrightarrow>
      users (handleRemoveUser name w) =
        filter (\<lambda>u. toLowerCase (username u) \<noteq> toLowerCase name) (users w) \<and>
      filter (\<lambda>u. toLowerCase (username u) = toLowerCase name) (users (handleRemoveUser name w)) = [] \<and>
      filter (\<lambda>u. toLowerCase (username u) \<noteq> toLowerCase name) (users (handleRemoveUser name w)) =
        filter (\<lambda>u. toLowerCase (username u) \<noteq> toLowerCase name) (users w) \<and>
      subseq (users (handleRemoveUser name w)) (users w) \<and>
      handleRemoveUser name w = w\<lparr>users := users (handleRemoveUser name w)\<rparr>)"
  by (simp add: handleRemoveUser_def filter_empty_conv)

theorem handleRemoveUser_spec_witness:
  "''Alice'' \<noteq> [] \<and>
   users (handleRemoveUser ''Alice'' alice_bob) = [unfetched ''bob''] \<and>
   handleRemoveUser [] alice_bob = alice_bob"
  using handleRemoveUser_spec [of "''Alice''" alice_bob] handleRemoveUser_spec [of "[]" alice_bob]
  by (simp add: alice_bob_def initial_app_def unfetched_def toLowerCase_def toLowerCase_char_def)

section \<open>Seeding\<close>

text \<open>
  C9: seeding is meant to split the configuration string at its commas, trim the pieces,
  discard the empty ones and append an unfetched entry for each name that is not already
  in the list, compared in lowercase, without sending a request. The code does all of
  this (\<open>seedUsers_appends\<close>) except that it compares each name with the list as it was
  before seeding, never with the names appended before it in the same pass: from the
  initial state, the string \<open>alice, Alice,bob\<close> appends \<open>Alice\<close> although \<open>alice\<close> is
  by then in the list.
\<close>

theorem seedUsers_repeated_name:
  "users (seedUsers (Some ''alice, Alice,bob'') initial_app) =
     [unfetched ''alice'', unfetched ''Alice'', unfetched ''bob''] \<and>
   is_present ''Alice'' [unfetched ''alice''] \<and>
   sent (seedUsers (Some ''alice, Alice,bob'') (initial_app :: int app)) = []"
  by (simp add: seedUsers_def seed_update_def initial_app_def unfetched_def trim_def is_space_def
      toLowerCase_def toLowerCase_char_def is_present_def)

text \<open>
  C2: the list is meant to hold no two usernames that are equal after lowercasing.
  handleAddUser, handleRemoveUser and the refresh keep it so (\<open>unique_users_handleAddUser\<close>,
  \<open>unique_users_handleRemoveUser\<close>, \<open>unique_users_refreshAll\<close>), and so does seeding
  from names that are pairwise different (\<open>unique_users_seed_update\<close>). Seeding compares
  each name with the list as it was, never with the names added before it: from the
  initial state, the configuration string \<open>alice,alice\<close> gives a list with two entries
  named \<open>alice\<close>.
\<close>

theorem seedUsers_duplicate:
  "users (seedUsers (Some ''alice,alice'') initial_app) = [unfetched ''alice'', unfetched ''alice''] \<and>
   \<not> unique_users (users (seedUsers (Some ''alice,alice'') (initial_app :: int app)))"
  by (simp add: seedUsers_def seed_update_def initial_app_def unfetched_def trim_def is_space_def
      toLowerCase_def toLowerCase_char_def unique_users_def)

section \<open>Refreshing\<close>

text \<open>
  C4: with both dates set and valid, for every list and every order in which the
  fetches complete (every permutation of the positions), the refresh replaces the list
  by one of the same length whose entry at position \<open>i\<close> is the result of the fetch
  for the username that was at position \<open>i\<close>, and carries that username.
\<close>

theorem refreshAll_positional:
  assumes "fromDate w = Some (ValidDate f)" and "toDate w = Some (ValidDate t)"
    and "distinct order" and "set order = {0..<length (users w)}"
  shows "fst (refreshAll githubToken nets order w) = None \<and>
         length (users (snd (refreshAll githubToken nets order w))) = length (users w) \<and>
         (\<forall>i<length (users w).
            fst (fetchUserStats githubToken (nets i) (username (users w ! i)) (fromDate w) (toDate w)) =
              Inr (users (snd (refreshAll githubToken nets order w)) ! i) \<and>
            username (users (snd (refreshAll githubToken nets order w)) ! i) = username (users w ! i))"
proof -
  let ?us' = "users (snd (refreshAll githubToken nets order w))"
  have us': "?us' = map (\<lambda>(i, u). projr (fst (fetchUserStats githubToken (nets i) (username u)
                                       (fromDate w) (toDate w)))) (enumerate 0 (users w))"
    and ok: "fst (refreshAll githubToken nets order w) = None"
    by (simp_all add: refreshAll_fulfilled [OF assms])
  have len: "length ?us' = length (users w)" unfolding us' by simp
  have pos: "fst (fetchUserStats githubToken (nets i) (username (users w ! i)) (fromDate w) (toDate w)) =
              Inr (?us' ! i) \<and> username (?us' ! i) = username (users w ! i)"
    if i: "i < length (users w)" for i
  proof -
    obtain r where r: "fst (fetchUserStats githubToken (nets i) (username (users w ! i))
                         (fromDate w) (toDate w)) = Inr r" "username r = username (users w ! i)"
      using fetchUserStats_fulfils [of "fromDate w" "toDate w" githubToken "nets i" "username (users w ! i)"]
        assms(1,2) by auto
    have "?us' ! i = r" unfolding us' using i r(1) by (simp add: nth_enumerate_eq)
    with r show ?thesis by simp
  qed
  from ok len pos show ?thesis by blast
qed

theorem refreshAll_positional_witness:
  "distinct [1, 0 :: nat] \<and> set [1, 0] = {0..<length (users alice_bob)} \<and>
   users (snd (refreshAll None nets_alice_only [1, 0] alice_bob)) =
     [\<lparr>username = ''alice'', stats = Some five_commits, error = None\<rparr>,
      \<lparr>username = ''bob'', stats = None, error = Some ''User not found or API error.''\<rparr>]"
proof -
  have d: "distinct [1, 0 :: nat]" by simp
  have s: "set [1, 0] = {0..<length (users alice_bob)}"
    by (auto simp: alice_bob_def initial_app_def)
  have f: "fromDate alice_bob = Some (ValidDate ''2024-01-01T00:00:00.000Z'')"
    and t: "toDate alice_bob = Some (ValidDate ''2024-01-31T00:00:00.000Z'')"
    by (simp_all add: alice_bob_def initial_app_def jan_first_def jan_last_def)
  have fa: "fetchUserStats None (nets_alice_only 0) ''alice'' (fromDate alice_bob) (toDate alice_bob) =
      (Inr \<lparr>username = ''alice'', stats = Some five_commits, error = None\<rparr>,
       [make_request None ''alice'' ''2024-01-01T00:00:00.000Z'' ''2024-01-31T00:00:00.000Z''])"
    unfolding f t
    by (simp add: fetchUserStats_valid nets_alice_only_def make_request_def read_response_def)
  have fb: "fetchUserStats None (nets_alice_only 1) ''bob'' (fromDate alice_bob) (toDate alice_bob) =
      (Inr \<lparr>username = ''bob'', stats = None, error = Some ''User not found or API error.''\<rparr>,
       [make_request None ''bob'' ''2024-01-01T00:00:00.000Z'' ''2024-01-31T00:00:00.000Z''])"
    unfolding f t
    by (simp add: fetchUserStats_valid nets_alice_only_def make_request_def read_response_def
        error_entry_def)
  have us: "users alice_bob = [unfetched ''alice'', unfetched ''bob'']"
    by (simp add: alice_bob_def initial_app_def)
  let ?us' = "users (snd (refreshAll None nets_alice_only [1, 0] alice_bob))"
  from refreshAll_positional [OF f t d s, of None nets_alice_only]
  have len: "length ?us' = 2"
    and p0: "?us' ! 0 = \<lparr>username = ''alice'', stats = Some five_commits, error = None\<rparr>"
    and p1: "?us' ! 1 = \<lparr>username = ''bob'', stats = None, error = Some ''User not found or API error.''\<rparr>"
    using fa fb by (auto simp: us unfetched_def)
  have "?us' = [?us' ! 0, ?us' ! 1]"
    using len by (intro nth_equalityI) (auto simp: less_Suc_eq numeral_2_eq_2)
  with p0 p1 d s show ?thesis by simp
qed

end
